theory Spec2Isabelle
  imports Main "HOL-Library.Word"
begin

unbundle bit_operations_syntax

chapter \<open>tidb-gateway: wire codec, framed connection, compression layer and routing\<close>

text \<open>
  A shallow embedding of the Go sources of the gateway. Byte slices are lists of
  8-bit words, Go's fixed-width unsigned integers are words of the same width, and
  every method with a pointer receiver takes the receiver's state and returns the new
  one. Errors are values of the type \<open>error\<close>.
\<close>

type_synonym byte = "8 word"

datatype error =
    EOF                                  \<comment> \<open>io.EOF\<close>
  | ErrUnexpectedEOF                     \<comment> \<open>io.ErrUnexpectedEOF\<close>
  | ErrBadConn                           \<comment> \<open>"connection was bad"\<close>
  | errNetPacketTooLarge                 \<comment> \<open>"net packet too large"\<close>
  | ErrMalformPacket                     \<comment> \<open>"malform packet"\<close>
  | ErrInvalidSequence byte byte         \<comment> \<open>"invalid sequence %d != %d"\<close>
  | ErrInvalidLenencInt                  \<comment> \<open>"invalid lenenc int"\<close>
  | ErrLengthMismatch nat nat            \<comment> \<open>"uncompessed length mismatch %d != %d"\<close>
  | ErrZlib                              \<comment> \<open>an error of the zlib reader\<close>
  | ErrTransport                         \<comment> \<open>a write error of the underlying net.Conn\<close>
  | Panic                                \<comment> \<open>a run-time panic (slice bounds, nil dereference)\<close>

section \<open>Wire buffer codec (package mysql, type Buffer)\<close>

text \<open>
  \<open>Buffer\<close> wraps a \<open>bytes.Buffer\<close>: the unread bytes, in order. Writes append at the
  end, reads consume from the front. A read returns its result together with the
  buffer it leaves behind, since \<open>bytes.Buffer.Next\<close> consumes what is there even when
  the caller then reports \<open>io.EOF\<close>.
\<close>

type_synonym Buffer = "byte list"

definition newBuffer :: "byte list \<Rightarrow> Buffer" where
  "newBuffer data = data"

definition WriteByte :: "Buffer \<Rightarrow> byte \<Rightarrow> Buffer" where
  "WriteByte b by = b @ [by]"

definition ReadByte :: "Buffer \<Rightarrow> (error + byte) \<times> Buffer" where
  "ReadByte b = (case b of [] \<Rightarrow> (Inl EOF, []) | by # rest \<Rightarrow> (Inr by, rest))"

definition WriteBytes :: "Buffer \<Rightarrow> byte list \<Rightarrow> Buffer" where
  "WriteBytes b bys = b @ bys"

text \<open>
  \<open>ReadBytes(n)\<close> takes \<open>b.b.Next(n)\<close>, which hands out at most the bytes that are
  left (and panics on a negative count), and fails with \<open>io.EOF\<close> when fewer than \<open>n\<close>
  came back.
\<close>

definition ReadBytes :: "Buffer \<Rightarrow> int \<Rightarrow> (error + byte list) \<times> Buffer" where
  "ReadBytes b n =
     (if n < 0 then (Inl Panic, b)
      else if nat n \<le> length b then (Inr (take (nat n) b), drop (nat n) b)
      else (Inl EOF, []))"

text \<open>\<open>encoding/binary\<close>, little endian.\<close>

definition PutUint16 :: "16 word \<Rightarrow> byte list" where
  "PutUint16 v = [ucast v, ucast (drop_bit 8 v)]"

definition Uint16 :: "byte list \<Rightarrow> 16 word" where
  "Uint16 b = ucast (b ! 0) OR push_bit 8 (ucast (b ! 1))"

definition PutUint32 :: "32 word \<Rightarrow> byte list" where
  "PutUint32 v = [ucast v, ucast (drop_bit 8 v), ucast (drop_bit 16 v), ucast (drop_bit 24 v)]"

definition Uint32 :: "byte list \<Rightarrow> 32 word" where
  "Uint32 b = ucast (b ! 0) OR push_bit 8 (ucast (b ! 1)) OR push_bit 16 (ucast (b ! 2))
     OR push_bit 24 (ucast (b ! 3))"

definition PutUint64 :: "64 word \<Rightarrow> byte list" where
  "PutUint64 v = [ucast v, ucast (drop_bit 8 v), ucast (drop_bit 16 v), ucast (drop_bit 24 v),
     ucast (drop_bit 32 v), ucast (drop_bit 40 v), ucast (drop_bit 48 v), ucast (drop_bit 56 v)]"

definition Uint64 :: "byte list \<Rightarrow> 64 word" where
  "Uint64 b = ucast (b ! 0) OR push_bit 8 (ucast (b ! 1)) OR push_bit 16 (ucast (b ! 2))
     OR push_bit 24 (ucast (b ! 3)) OR push_bit 32 (ucast (b ! 4)) OR push_bit 40 (ucast (b ! 5))
     OR push_bit 48 (ucast (b ! 6)) OR push_bit 56 (ucast (b ! 7))"

definition WriteUint32 :: "Buffer \<Rightarrow> 32 word \<Rightarrow> Buffer" where
  "WriteUint32 b n = WriteBytes b (PutUint32 n)"

definition ReadUint32 :: "Buffer \<Rightarrow> (error + 32 word) \<times> Buffer" where
  "ReadUint32 b =
     (case ReadBytes b 4 of
        (Inl err, b') \<Rightarrow> (Inl err, b')
      | (Inr data, b') \<Rightarrow> (Inr (Uint32 data), b'))"

definition WriteUint16 :: "Buffer \<Rightarrow> 16 word \<Rightarrow> Buffer" where
  "WriteUint16 b n = WriteBytes b (PutUint16 n)"

definition ReadUint16 :: "Buffer \<Rightarrow> (error + 16 word) \<times> Buffer" where
  "ReadUint16 b =
     (case ReadBytes b 2 of
        (Inl err, b') \<Rightarrow> (Inl err, b')
      | (Inr data, b') \<Rightarrow> (Inr (Uint16 data), b'))"

definition WriteUint24 :: "Buffer \<Rightarrow> 32 word \<Rightarrow> Buffer" where
  "WriteUint24 b n = WriteByte (WriteUint16 b (ucast (n AND 0xFFFF))) (ucast (drop_bit 16 n))"

definition ReadUint24 :: "Buffer \<Rightarrow> (error + 32 word) \<times> Buffer" where
  "ReadUint24 b =
     (case ReadUint16 b of
        (Inl err, b') \<Rightarrow> (Inl err, b')
      | (Inr u16, b') \<Rightarrow>
          (case ReadByte b' of
             (Inl err, b'') \<Rightarrow> (Inl err, b'')
           | (Inr b3, b'') \<Rightarrow> (Inr (ucast u16 OR push_bit 16 (ucast b3)), b'')))"

definition WriteUint64 :: "Buffer \<Rightarrow> 64 word \<Rightarrow> Buffer" where
  "WriteUint64 b n = WriteBytes b (PutUint64 n)"

definition ReadUint64 :: "Buffer \<Rightarrow> (error + 64 word) \<times> Buffer" where
  "ReadUint64 b =
     (case ReadBytes b 8 of
        (Inl err, b') \<Rightarrow> (Inl err, b')
      | (Inr data, b') \<Rightarrow> (Inr (Uint64 data), b'))"

text \<open>The \<open>switch\<close> of \<open>WriteLenencInt\<close>, case by case in the source's order.\<close>

definition WriteLenencInt :: "Buffer \<Rightarrow> 64 word \<Rightarrow> Buffer" where
  "WriteLenencInt b n =
     (if n < 251 then WriteByte b (ucast n)
      else if n \<ge> 251 \<and> n < 2 ^ 16 then WriteUint16 (WriteByte b 0xFC) (ucast n)
      else if n \<ge> 2 ^ 16 \<and> n < 2 ^ 24 then WriteUint24 (WriteByte b 0xFD) (ucast n)
      else WriteUint64 (WriteByte b 0xFE) n)"

definition ReadLenencInt :: "Buffer \<Rightarrow> (error + 64 word) \<times> Buffer" where
  "ReadLenencInt b =
     (case ReadByte b of
        (Inl err, b') \<Rightarrow> (Inl err, b')
      | (Inr b1, b') \<Rightarrow>
          if b1 < 0xFC then (Inr (ucast b1), b')
          else if b1 = 0xFC then
            (case ReadUint16 b' of
               (Inl err, b'') \<Rightarrow> (Inl err, b'')
             | (Inr n, b'') \<Rightarrow> (Inr (ucast n), b''))
          else if b1 = 0xFD then
            (case ReadUint24 b' of
               (Inl err, b'') \<Rightarrow> (Inl err, b'')
             | (Inr n, b'') \<Rightarrow> (Inr (ucast n), b''))
          else if b1 = 0xFE then ReadUint64 b'
          else (Inl ErrInvalidLenencInt, b'))"

section \<open>Backend directory and routing (package gateway)\<close>

record BackendConfig =
  ClusterID :: string
  Address :: string

type_synonym BackendConfigs = "BackendConfig list"

record TLSConfig =
  CA :: string
  Cert :: string
  Key :: string
  MinVersion :: string

record Config =
  TLS :: TLSConfig
  BackendConfigs :: BackendConfigs
  EnableCompressionOpt :: bool
  BackendInsecureTransport :: bool

text \<open>
  \<open>strings.EqualFold\<close> belongs to Go's library: it compares two strings, read as UTF-8,
  under Unicode simple case folding. \<open>Find\<close> takes it as the parameter \<open>eqFold\<close>, so what
  is proved of \<open>Find\<close> holds for the library function on every input. On two strings of
  ASCII bytes the library function is equality after mapping \<open>A\<close>..\<open>Z\<close> to \<open>a\<close>..\<open>z\<close>
  (its ASCII path); \<open>EqualFoldASCII\<close> is that comparison. It is the property of the
  library function that the case-insensitivity of the lookup rests on, and the instance
  at which examples are evaluated.
\<close>

definition toLowerASCII :: "char \<Rightarrow> char" where
  "toLowerASCII ch =
     (if 65 \<le> (of_char ch :: nat) \<and> (of_char ch :: nat) \<le> 90
      then char_of (of_char ch + (32 :: nat)) else ch)"

definition isASCII :: "string \<Rightarrow> bool" where
  "isASCII s = (\<forall>ch \<in> set s. (of_char ch :: nat) < 128)"

definition EqualFoldASCII :: "string \<Rightarrow> string \<Rightarrow> bool" where
  "EqualFoldASCII s t = (map toLowerASCII s = map toLowerASCII t)"

text \<open>The \<open>range\<close> loop of \<open>BackendConfigs.Find\<close>: the first entry that folds equal wins.\<close>

fun Find :: "(string \<Rightarrow> string \<Rightarrow> bool) \<Rightarrow> BackendConfigs \<Rightarrow> string \<Rightarrow> string" where
  "Find eqFold [] cluster = cluster"
| "Find eqFold (c # cs) cluster =
     (if eqFold (ClusterID c) cluster then Address c else Find eqFold cs cluster)"

text \<open>
  \<open>strings.SplitN(s, sep, 2)\<close> for a one-byte separator: the whole string when the
  separator does not occur, otherwise the text before its first occurrence and the
  text after it.
\<close>

definition SplitN2 :: "string \<Rightarrow> char \<Rightarrow> string list" where
  "SplitN2 s sep =
     (if sep \<in> set s
      then [takeWhile (\<lambda>ch. ch \<noteq> sep) s, tl (dropWhile (\<lambda>ch. ch \<noteq> sep) s)]
      else [s])"

text \<open>
  \<open>regexp.MatchString(`:\d+$`, s)\<close>: the pattern is not anchored on the left, \<open>\d\<close> is an
  ASCII digit and \<open>$\<close> is the end of the text, so it matches exactly when the longest run
  of digits at the end of \<open>s\<close> is not empty and the byte before it is a colon.
\<close>

definition isDigit :: "char \<Rightarrow> bool" where
  "isDigit ch = (48 \<le> (of_char ch :: nat) \<and> (of_char ch :: nat) \<le> 57)"

definition matchPortSuffix :: "string \<Rightarrow> bool" where
  "matchPortSuffix s =
     (takeWhile isDigit (rev s) \<noteq> [] \<and>
      (case dropWhile isDigit (rev s) of [] \<Rightarrow> False | ch # _ \<Rightarrow> ch = CHR '':''))"

section \<open>HandshakeResponse (package mysql)\<close>

record HandshakeResponse =
  Capability :: "32 word"
  MaxPacketSize :: "32 word"
  CharacterSet :: byte
  UserName :: string
  DBName :: string
  Auth :: "byte list"
  AuthPlugin :: string
  Attrs :: "string \<rightharpoonup> string"

text \<open>
  \<open>Gateway.getBackendAddr\<close> (the user-name variant). It writes the stripped user name
  back into the response it was given, so the model returns the response as well. The
  error it returns is always \<open>nil\<close>. \<open>eqFold\<close> is \<open>strings.EqualFold\<close>, handed on to
  \<open>Find\<close>.
\<close>

definition getBackendAddr ::
  "(string \<Rightarrow> string \<Rightarrow> bool) \<Rightarrow> Config \<Rightarrow> HandshakeResponse
     \<Rightarrow> (error + string) \<times> HandshakeResponse" where
  "getBackendAddr eqFold conf res =
     (let splits = SplitN2 (UserName res) CHR ''.'';
          clusterID = splits ! 0;
          res' = (if length splits = 1 then res\<lparr>UserName := []\<rparr>
                  else res\<lparr>UserName := splits ! 1\<rparr>);
          clusterAddr = Find eqFold (BackendConfigs conf) clusterID;
          clusterAddr' = (if \<not> matchPortSuffix clusterAddr then clusterAddr @ '':4000''
                          else clusterAddr)
      in (Inr clusterAddr', res'))"

text \<open>
  The capability constants and the plugin name \<open>AuthInvalidMethod\<close> are declared in a
  file of package mysql that is not part of the sources at hand; the functions that use
  them take them as a parameter.
\<close>

record mysqlConsts =
  ClientCompress :: "32 word"
  ClientSecureConnection :: "32 word"
  ClientPluginAuth :: "32 word"
  ClientSSL :: "32 word"
  AuthInvalidMethod :: string

text \<open>
  The statements of \<open>Gateway.handleConn\<close> between receiving the backend's
  InitialHandshake and \<open>backendConn.SendPacket(res)\<close>: they rewrite the client's decoded
  response in place.
\<close>

definition handleConn_rewrite :: "mysqlConsts \<Rightarrow> Config \<Rightarrow> HandshakeResponse \<Rightarrow> HandshakeResponse" where
  "handleConn_rewrite k conf res =
     (let res1 = res\<lparr>Capability := Capability res AND NOT (ClientCompress k)\<rparr>;
          res2 = (if BackendInsecureTransport conf
                  then res1\<lparr>Capability := Capability res1 AND NOT (ClientSecureConnection k)\<rparr>
                  else res1);
          res3 = res2\<lparr>Capability := Capability res2 OR ClientPluginAuth k\<rparr>
      in res3\<lparr>AuthPlugin := AuthInvalidMethod k\<rparr>)"

text \<open>
  What \<open>handleConn\<close> hands to \<open>backendConn.SendPacket\<close> for the response \<open>res\<close> it decoded
  from the client: \<open>getBackendAddr\<close> has stripped the user name, then the rewrite above.
\<close>

definition handleConn_forwarded ::
  "mysqlConsts \<Rightarrow> (string \<Rightarrow> string \<Rightarrow> bool) \<Rightarrow> Config \<Rightarrow> HandshakeResponse
     \<Rightarrow> HandshakeResponse" where
  "handleConn_forwarded k eqFold conf res =
     handleConn_rewrite k conf (snd (getBackendAddr eqFold conf res))"

section \<open>Transport and buffered I/O (net.Conn, bufio)\<close>

text \<open>
  The transport and the \<open>bufio\<close> pair on top of it belong to Go's library; the model
  keeps what the framing code can observe. A \<open>net.Conn\<close> delivers the bytes \<open>incoming\<close>
  and then reports end of file, and accepts \<open>accepts\<close> bytes before a write fails
  (\<open>None\<close>: it never fails). A \<open>bufio.Reader\<close> is the bytes it has still to hand out. A
  \<open>bufio.Writer\<close> is the bytes it has taken so far, in order, the room that is left and
  its sticky error: once a write came up short, every later \<open>Write\<close> and \<open>Flush\<close> fails.
\<close>

record netConn =
  incoming :: "byte list"
  accepts :: "nat option"

record bufioReader =
  pending :: "byte list"

record bufioWriter =
  written :: "byte list"
  room :: "nat option"
  failed :: bool

definition NewReaderSize :: "netConn \<Rightarrow> bufioReader" where
  "NewReaderSize nc = \<lparr>pending = incoming nc\<rparr>"

definition NewWriterSize :: "netConn \<Rightarrow> bufioWriter" where
  "NewWriterSize nc = \<lparr>written = [], room = accepts nc, failed = False\<rparr>"

definition bufio_Write :: "bufioWriter \<Rightarrow> byte list \<Rightarrow> bufioWriter \<times> nat \<times> error option" where
  "bufio_Write bw p =
     (if failed bw then (bw, 0, Some ErrTransport)
      else case room bw of
        None \<Rightarrow> (bw\<lparr>written := written bw @ p\<rparr>, length p, None)
      | Some m \<Rightarrow>
          if length p \<le> m
          then (bw\<lparr>written := written bw @ p, room := Some (m - length p)\<rparr>, length p, None)
          else (bw\<lparr>written := written bw @ take m p, room := Some 0, failed := True\<rparr>,
                m, Some ErrTransport))"

definition bufio_Flush :: "bufioWriter \<Rightarrow> error option" where
  "bufio_Flush bw = (if failed bw then Some ErrTransport else None)"

section \<open>Compression layer (mysql/compress.go)\<close>

definition minCompressLen :: nat where
  "minCompressLen = 128"

definition maxBufferLen :: nat where
  "maxBufferLen = 2 ^ 23 - 1"

definition MaxPayloadLen :: nat where
  "MaxPayloadLen = 2 ^ 24 - 1"

definition SeqResetNone :: byte where "SeqResetNone = 0"
definition SeqResetOnRead :: byte where "SeqResetOnRead = 1"
definition SeqResetOnWrite :: byte where "SeqResetOnWrite = 2"
definition SeqResetBoth :: byte where "SeqResetBoth = 3"

text \<open>\<open>mysql/util.go\<close>. The argument of \<open>writeLen3\<close> is a Go \<open>int\<close>; \<open>>>\<close> on it is the
  arithmetic shift, which is \<open>div\<close> on \<open>int\<close>.\<close>

definition readLen3 :: "byte list \<Rightarrow> int" where
  "readLen3 b = uint ((ucast (b ! 0) :: 32 word) OR push_bit 8 (ucast (b ! 1))
                       OR push_bit 16 (ucast (b ! 2)))"

definition writeLen3 :: "int \<Rightarrow> byte list" where
  "writeLen3 n = [word_of_int n, word_of_int (n div 2 ^ 8), word_of_int (n div 2 ^ 16)]"

text \<open>
  The fields of \<open>Compressor\<close>; \<open>r\<close>, \<open>w\<close>, \<open>sequence\<close> and \<open>seqreset\<close> carry the suffix
  \<open>_z\<close> to keep them apart from the fields of \<open>Conn\<close>. The reader and the writer it wraps
  are the \<open>bufio\<close> pair of the connection that installs it.
\<close>

record Compressor =
  r_z :: bufioReader
  w_z :: bufioWriter
  sequence_z :: byte
  seqreset_z :: byte
  readBuffer :: "byte list"
  writeBuffer :: "byte list"
  flushBuffer :: "byte list"

definition NewCompressor :: "bufioReader \<Rightarrow> bufioWriter \<Rightarrow> Compressor" where
  "NewCompressor rd wr =
     \<lparr>r_z = rd, w_z = wr, sequence_z = 0, seqreset_z = 0,
      readBuffer = [], writeBuffer = [], flushBuffer = []\<rparr>"

text \<open>
  \<open>Compressor.Flush\<close>. The zlib writer belongs to Go's library: \<open>deflate\<close> stands for the
  stream it produces for the bytes it is given, and the function takes it as a
  parameter. The stream is appended to \<open>flushBuffer\<close>; writing into a \<open>bytes.Buffer\<close>
  does not fail, so the two error returns of the zlib branch are never taken.
\<close>

definition Compressor_Flush :: "(byte list \<Rightarrow> byte list) \<Rightarrow> Compressor \<Rightarrow> Compressor \<times> error option" where
  "Compressor_Flush deflate c =
     (let c1 = (if seqreset_z c AND SeqResetOnWrite \<noteq> 0
                then c\<lparr>seqreset_z := seqreset_z c AND NOT SeqResetOnWrite, sequence_z := 0\<rparr>
                else c);
          c2 = (if length (writeBuffer c1) < minCompressLen then c1
                else c1\<lparr>flushBuffer := flushBuffer c1 @ deflate (writeBuffer c1)\<rparr>);
          head = (if length (writeBuffer c1) < minCompressLen
                  then writeLen3 (int (length (writeBuffer c1))) @ [sequence_z c1] @ writeLen3 0
                  else writeLen3 (int (length (flushBuffer c2))) @ [sequence_z c1]
                         @ writeLen3 (int (length (writeBuffer c1))));
          payload = (if length (writeBuffer c1) < minCompressLen then writeBuffer c1
                     else flushBuffer c2)
      in case bufio_Write (w_z c2) head of (w1, n, _) \<Rightarrow>
           if n \<noteq> 7 then (c2\<lparr>w_z := w1\<rparr>, Some ErrBadConn)
           else case bufio_Write w1 payload of (w2, n', _) \<Rightarrow>
             if n' \<noteq> length payload then (c2\<lparr>w_z := w2\<rparr>, Some ErrBadConn)
             else (c2\<lparr>w_z := w2, sequence_z := sequence_z c2 + 1,
                      writeBuffer := [], flushBuffer := []\<rparr>,
                   bufio_Flush w2))"

lemma Compressor_Flush_ok_empties:
  "Compressor_Flush deflate c = (c', None) \<Longrightarrow> writeBuffer c' = []"
  by (auto simp: Compressor_Flush_def Let_def split: prod.splits if_splits)

text \<open>
  \<open>Compressor.Write\<close>. \<open>capacity\<close> is a Go \<open>int\<close> and may be negative when the buffer is
  over-full, in which case the slice expression \<open>p[:capacity]\<close> panics. The count the
  loop returns after a flush is the count of its last step, as in the source.
\<close>

function Compressor_Write ::
  "(byte list \<Rightarrow> byte list) \<Rightarrow> Compressor \<Rightarrow> byte list \<Rightarrow> Compressor \<times> nat \<times> error option" where
  "Compressor_Write deflate c p =
     (if length p > 0 then
        (let capacity = int maxBufferLen - int (length (writeBuffer c)) in
         if capacity \<ge> int (length p)
         then (c\<lparr>writeBuffer := writeBuffer c @ p\<rparr>, length p, None)
         else if capacity < 0 then (c, 0, Some Panic)
         else (case Compressor_Flush deflate
                      (c\<lparr>writeBuffer := writeBuffer c @ take (nat capacity) p\<rparr>) of
                 (c', Some err) \<Rightarrow> (c', nat capacity, Some err)
               | (c', None) \<Rightarrow> Compressor_Write deflate c' (drop (nat capacity) p)))
      else (c, 0, None))"
  by pat_completeness auto
termination
proof (relation "measure (\<lambda>(deflate, c, p).
          2 * length p + (if maxBufferLen \<le> length (writeBuffer c) then 1 else 0))")
  show "wf (measure (\<lambda>(deflate, c, p).
          2 * length p + (if maxBufferLen \<le> length (writeBuffer c) then 1 else 0)))"
    by simp
next
  fix deflate :: "byte list \<Rightarrow> byte list" and c :: Compressor and p :: "byte list"
    and capacity :: int and c' :: Compressor and e :: "error option"
  assume a: "0 < length p" "capacity = int maxBufferLen - int (length (writeBuffer c))"
    "\<not> int (length p) \<le> capacity" "\<not> capacity < 0"
    and b: "(c', e) = Compressor_Flush deflate
              (c\<lparr>writeBuffer := writeBuffer c @ take (nat capacity) p\<rparr>)" "e = None"
  have "writeBuffer c' = []"
    using b Compressor_Flush_ok_empties[of deflate _ c'] by metis
  moreover have "0 < maxBufferLen" by (simp add: maxBufferLen_def)
  ultimately show "((deflate, c', drop (nat capacity) p), (deflate, c, p))
      \<in> measure (\<lambda>(deflate, c, p).
          2 * length p + (if maxBufferLen \<le> length (writeBuffer c) then 1 else 0))"
    using a by (auto split: if_splits)
qed

declare Compressor_Write.simps [simp del]

definition Compressor_SetResetOption :: "Compressor \<Rightarrow> byte \<Rightarrow> Compressor" where
  "Compressor_SetResetOption c opt = c\<lparr>seqreset_z := opt\<rparr>"

section \<open>Framed connection (mysql/conn.go)\<close>

text \<open>
  The fields \<open>r\<close> and \<open>w\<close> of \<open>Conn\<close> are interface values: either the connection's own
  \<open>bufio\<close> reader and writer, or the \<open>*Compressor\<close> that the field \<open>compressor\<close> points
  to as well. The compressor is stored once, in \<open>compressor\<close>, and \<open>CompressorReader\<close>
  and \<open>CompressorWriter\<close> stand for the two aliases of that pointer.
\<close>

datatype Reader = BufioReader bufioReader | CompressorReader

datatype WriteFlusher = BufioWriter bufioWriter | CompressorWriter

record Conn =
  conn :: netConn
  r :: Reader
  w :: WriteFlusher
  sequence :: byte
  seqreset :: byte
  readTimeout :: int
  maxAllowedPacket :: "64 word"
  compressor :: "Compressor option"

definition NewConn :: "netConn \<Rightarrow> Conn" where
  "NewConn nc =
     \<lparr>conn = nc, r = BufioReader (NewReaderSize nc), w = BufioWriter (NewWriterSize nc),
      sequence = 0, seqreset = 0, readTimeout = 0, maxAllowedPacket = - 1,
      compressor = None\<rparr>"

definition SetRawConn :: "Conn \<Rightarrow> netConn \<Rightarrow> Conn" where
  "SetRawConn c nc =
     c\<lparr>conn := nc, r := BufioReader (NewReaderSize nc), w := BufioWriter (NewWriterSize nc)\<rparr>"

definition SetReadTimeout :: "Conn \<Rightarrow> int \<Rightarrow> Conn" where
  "SetReadTimeout c timeout = c\<lparr>readTimeout := timeout\<rparr>"

definition SetMaxAllowedPacket :: "Conn \<Rightarrow> 64 word \<Rightarrow> Conn" where
  "SetMaxAllowedPacket c m = c\<lparr>maxAllowedPacket := m\<rparr>"

text \<open>\<open>c.w.Write(p)\<close> and \<open>c.w.Flush()\<close>: the call goes to whatever \<open>w\<close> holds.\<close>

definition w_Write ::
  "(byte list \<Rightarrow> byte list) \<Rightarrow> Conn \<Rightarrow> byte list \<Rightarrow> Conn \<times> nat \<times> error option" where
  "w_Write deflate c p =
     (case w c of
        BufioWriter bw \<Rightarrow>
          (case bufio_Write bw p of (bw', n, err) \<Rightarrow> (c\<lparr>w := BufioWriter bw'\<rparr>, n, err))
      | CompressorWriter \<Rightarrow>
          (case compressor c of
             None \<Rightarrow> (c, 0, Some Panic)
           | Some z \<Rightarrow>
               (case Compressor_Write deflate z p of
                  (z', n, err) \<Rightarrow> (c\<lparr>compressor := Some z'\<rparr>, n, err))))"

definition w_Flush :: "(byte list \<Rightarrow> byte list) \<Rightarrow> Conn \<Rightarrow> Conn \<times> error option" where
  "w_Flush deflate c =
     (case w c of
        BufioWriter bw \<Rightarrow> (c, bufio_Flush bw)
      | CompressorWriter \<Rightarrow>
          (case compressor c of
             None \<Rightarrow> (c, Some Panic)
           | Some z \<Rightarrow>
               (case Compressor_Flush deflate z of
                  (z', err) \<Rightarrow> (c\<lparr>compressor := Some z'\<rparr>, err))))"

text \<open>The \<open>for\<close> loop of \<open>Conn.WritePacket\<close>, one iteration per wire packet.\<close>

function WritePacket_loop ::
  "(byte list \<Rightarrow> byte list) \<Rightarrow> Conn \<Rightarrow> byte list \<Rightarrow> Conn \<times> error option" where
  "WritePacket_loop deflate c data =
     (let plen = (if length data \<ge> MaxPayloadLen then MaxPayloadLen else length data);
          head = writeLen3 (int plen) @ [sequence c]
      in case w_Write deflate c head of (c1, n, err) \<Rightarrow>
           if err \<noteq> None \<or> n \<noteq> length head then (c1, Some ErrBadConn)
           else case w_Write deflate c1 (take plen data) of (c2, n', err') \<Rightarrow>
             if err' \<noteq> None then (c2, Some ErrBadConn)
             else if n' \<noteq> plen then (c2, Some ErrBadConn)
             else if length (drop plen data) = 0
                  then (c2\<lparr>sequence := sequence c2 + 1\<rparr>, None)
                  else WritePacket_loop deflate (c2\<lparr>sequence := sequence c2 + 1\<rparr>)
                         (drop plen data))"
  by pat_completeness auto
termination
  by (relation "measure (\<lambda>(deflate, c, data). length data)")
     (auto simp: MaxPayloadLen_def split: if_splits)

declare WritePacket_loop.simps [simp del]

definition WritePacket ::
  "(byte list \<Rightarrow> byte list) \<Rightarrow> Conn \<Rightarrow> byte list \<Rightarrow> Conn \<times> error option" where
  "WritePacket deflate c data =
     WritePacket_loop deflate
       (if seqreset c AND SeqResetOnWrite \<noteq> 0
        then c\<lparr>seqreset := seqreset c AND NOT SeqResetOnWrite, sequence := 0\<rparr>
        else c)
       data"

definition Flush :: "(byte list \<Rightarrow> byte list) \<Rightarrow> Conn \<Rightarrow> Conn \<times> error option" where
  "Flush deflate c = w_Flush deflate c"

definition SetResetOption :: "Conn \<Rightarrow> byte \<Rightarrow> Conn" where
  "SetResetOption c opt =
     (let c1 = c\<lparr>seqreset := opt\<rparr>
      in case compressor c1 of
           None \<Rightarrow> c1
         | Some z \<Rightarrow> c1\<lparr>compressor := Some (Compressor_SetResetOption z opt)\<rparr>)"

text \<open>
  \<open>Conn.EnableCompression\<close> wraps the current reader and writer. \<open>handleConn\<close> calls it
  once, on a connection whose reader and writer are the \<open>bufio\<close> pair. A second call
  would wrap the first compressor in another one; the model has no stacked compressors
  and answers \<open>None\<close> there.
\<close>

definition EnableCompression :: "Conn \<Rightarrow> Conn option" where
  "EnableCompression c =
     (case (r c, w c) of
        (BufioReader br, BufioWriter bw) \<Rightarrow>
          Some (c\<lparr>compressor := Some (NewCompressor br bw),
                  r := CompressorReader, w := CompressorWriter\<rparr>)
      | _ \<Rightarrow> None)"

text \<open>
  The sending loop of the package's connection test (\<open>goSendPayloads\<close>): the payloads are
  written one after the other and the first error stops it.
\<close>

fun goSendPayloads ::
  "(byte list \<Rightarrow> byte list) \<Rightarrow> Conn \<Rightarrow> byte list list \<Rightarrow> Conn \<times> error option" where
  "goSendPayloads deflate c [] = (c, None)"
| "goSendPayloads deflate c (p # ps) =
     (case WritePacket deflate c p of
        (c', Some err) \<Rightarrow> (c', Some err)
      | (c', None) \<Rightarrow> goSendPayloads deflate c' ps)"

text \<open>
  \<open>WritePacket\<close> followed by \<open>Flush\<close>, as \<open>SendPacket\<close>, \<open>copyPacket\<close> and
  \<open>copyInboundPackets\<close> do it: the flush is skipped when the write failed.
\<close>

definition WritePacket_Flush ::
  "(byte list \<Rightarrow> byte list) \<Rightarrow> Conn \<Rightarrow> byte list \<Rightarrow> Conn \<times> error option" where
  "WritePacket_Flush deflate c data =
     (case WritePacket deflate c data of
        (c', Some err) \<Rightarrow> (c', Some err)
      | (c', None) \<Rightarrow> Flush deflate c')"

text \<open>The bytes that have reached the connection's \<open>bufio.Writer\<close>, through the compressor
  when one is installed as the writer.\<close>

definition transportBytes :: "Conn \<Rightarrow> byte list" where
  "transportBytes c =
     (case w c of
        BufioWriter bw \<Rightarrow> written bw
      | CompressorWriter \<Rightarrow> (case compressor c of None \<Rightarrow> [] | Some z \<Rightarrow> written (w_z z)))"

section \<open>Example inputs\<close>

definition exampleConfig :: "string \<Rightarrow> Config" where
  "exampleConfig addr =
     \<lparr>TLS = \<lparr>CA = [], Cert = [], Key = [], MinVersion = []\<rparr>,
      BackendConfigs = [\<lparr>ClusterID = ''C1'', Address = addr\<rparr>],
      EnableCompressionOpt = False, BackendInsecureTransport = False\<rparr>"

definition exampleResponse :: "string \<Rightarrow> HandshakeResponse" where
  "exampleResponse u =
     \<lparr>Capability = 0, MaxPacketSize = 0, CharacterSet = 0, UserName = u, DBName = [],
      Auth = [], AuthPlugin = [], Attrs = Map.empty\<rparr>"

definition exampleConsts :: mysqlConsts where
  "exampleConsts =
     \<lparr>ClientCompress = 0x20, ClientSecureConnection = 0x8000, ClientPluginAuth = 0x80000,
      ClientSSL = 0x800, AuthInvalidMethod = ''invalid''\<rparr>"

definition exampleNetConn :: netConn where
  "exampleNetConn = \<lparr>incoming = [], accepts = None\<rparr>"

definition exampleCompressor :: Compressor where
  "exampleCompressor = NewCompressor (NewReaderSize exampleNetConn) (NewWriterSize exampleNetConn)"

section \<open>Properties of the wire buffer codec\<close>

lemma Uint16_PutUint16: "Uint16 (PutUint16 v) = v"
  unfolding Uint16_def PutUint16_def
  by (rule bit_word_eqI) (auto simp: bit_simps)

lemma Uint64_PutUint64: "Uint64 (PutUint64 v) = v"
  unfolding Uint64_def PutUint64_def
  apply (rule bit_word_eqI)
  apply (simp add: bit_simps less_diff_conv2 cong: conj_cong)
  apply (case_tac "bit v n"; simp)
  apply linarith
  done

lemma takeWhile_stop: "\<forall>x \<in> set xs. P x \<Longrightarrow> \<not> P y \<Longrightarrow> takeWhile P (xs @ y # ys) = xs"
  by (induction xs) auto

lemma dropWhile_stop: "\<forall>x \<in> set xs. P x \<Longrightarrow> \<not> P y \<Longrightarrow> dropWhile P (xs @ y # ys) = y # ys"
  by (induction xs) auto

lemma SplitN2_none: "sep \<notin> set s \<Longrightarrow> SplitN2 s sep = [s]"
  by (simp add: SplitN2_def)

lemma SplitN2_first: "sep \<notin> set a \<Longrightarrow> SplitN2 (a @ sep # b) sep = [a, b]"
proof -
  assume "sep \<notin> set a"
  then have "takeWhile (\<lambda>ch. ch \<noteq> sep) (a @ sep # b) = a"
    and "dropWhile (\<lambda>ch. ch \<noteq> sep) (a @ sep # b) = sep # b"
    by (induction a) auto
  then show ?thesis by (simp add: SplitN2_def)
qed

lemma isDigit_iff: "isDigit ch \<longleftrightarrow> ch \<in> set ''0123456789''"
proof
  assume "isDigit ch"
  then have "(of_char ch :: nat) \<in> {48, 49, 50, 51, 52, 53, 54, 55, 56, 57}"
    unfolding isDigit_def by (simp, arith)
  also have "{48, 49, 50, 51, 52, 53, 54, 55, 56, 57} = (of_char ` set ''0123456789'' :: nat set)"
    by simp
  finally obtain d where d: "d \<in> set ''0123456789''" and e: "(of_char ch :: nat) = of_char d"
    by blast
  from e have "ch = d" by (simp only: of_char_eq_iff)
  with d show "ch \<in> set ''0123456789''" by simp
next
  assume "ch \<in> set ''0123456789''"
  then show "isDigit ch" by (auto simp: isDigit_def)
qed


lemma colon_not_digit: "\<not> isDigit CHR '':''"
  by (simp add: isDigit_def)

lemma matchPortSuffix_iff:
  "matchPortSuffix s \<longleftrightarrow>
     (\<exists>p ds. s = p @ CHR '':'' # ds \<and> ds \<noteq> [] \<and> set ds \<subseteq> set ''0123456789'')"
proof
  assume m: "matchPortSuffix s"
  let ?t = "takeWhile isDigit (rev s)" and ?d = "dropWhile isDigit (rev s)"
  from m obtain rest where d: "?d = CHR '':'' # rest" and t: "?t \<noteq> []"
    by (auto simp: matchPortSuffix_def split: list.splits)
  have "rev s = ?t @ ?d" by simp
  then have "s = rev ?d @ rev ?t" by (metis rev_append rev_rev_ident)
  then have "s = rev rest @ CHR '':'' # rev ?t" using d by simp
  moreover have "set (rev ?t) \<subseteq> set ''0123456789''"
  proof
    fix x assume "x \<in> set (rev ?t)"
    then have "x \<in> set ?t" by (simp only: set_rev)
    then have "isDigit x" by (rule set_takeWhileD[THEN conjunct2])
    then show "x \<in> set ''0123456789''" by (simp only: isDigit_iff)
  qed
  ultimately show "\<exists>p ds. s = p @ CHR '':'' # ds \<and> ds \<noteq> [] \<and> set ds \<subseteq> set ''0123456789''"
    using t by (metis rev_is_Nil_conv)
next
  assume "\<exists>p ds. s = p @ CHR '':'' # ds \<and> ds \<noteq> [] \<and> set ds \<subseteq> set ''0123456789''"
  then obtain p ds where s: "s = p @ CHR '':'' # ds" and ne: "ds \<noteq> []"
    and dg: "set ds \<subseteq> set ''0123456789''" by blast
  have dg': "\<forall>d \<in> set (rev ds). isDigit d"
  proof
    fix d assume "d \<in> set (rev ds)"
    then have "d \<in> set ds" by (simp only: set_rev)
    then have "d \<in> set ''0123456789''" using dg by (rule subsetD[rotated])
    then show "isDigit d" by (simp only: isDigit_iff)
  qed
  have "rev s = rev ds @ CHR '':'' # rev p" by (simp add: s)
  then have "takeWhile isDigit (rev s) = rev ds" "dropWhile isDigit (rev s) = CHR '':'' # rev p"
    using takeWhile_stop[OF dg' colon_not_digit] dropWhile_stop[OF dg' colon_not_digit] by simp_all
  then show "matchPortSuffix s" using ne by (simp add: matchPortSuffix_def)
qed

lemma Find_absent: "\<forall>c \<in> set cs. \<not> eqFold (ClusterID c) cid \<Longrightarrow> Find eqFold cs cid = cid"
  by (induction cs) auto

lemma Find_first:
  "\<forall>c' \<in> set pre. \<not> eqFold (ClusterID c') cid \<Longrightarrow> eqFold (ClusterID c) cid
     \<Longrightarrow> Find eqFold (pre @ c # post) cid = Address c"
  by (induction pre) auto

lemma letters_fold:
  "list_all (\<lambda>(u, l). toLowerASCII u = l \<and> toLowerASCII l = l)
     (zip ''ABCDEFGHIJKLMNOPQRSTUVWXYZ'' ''abcdefghijklmnopqrstuvwxyz'')"
  by code_simp

lemma letter_pair_fold:
  assumes "(u, l) \<in> set (zip ''ABCDEFGHIJKLMNOPQRSTUVWXYZ'' ''abcdefghijklmnopqrstuvwxyz'')"
  shows "toLowerASCII u = l" and "toLowerASCII l = l"
proof -
  have "\<forall>(u, l) \<in> set (zip ''ABCDEFGHIJKLMNOPQRSTUVWXYZ'' ''abcdefghijklmnopqrstuvwxyz'').
          toLowerASCII u = l \<and> toLowerASCII l = l"
    using letters_fold unfolding list_all_iff .
  from bspec[OF this assms] show "toLowerASCII u = l" and "toLowerASCII l = l" by simp_all
qed

lemma same_up_to_case_fold:
  assumes "list_all2 (\<lambda>x y. x = y
      \<or> (x, y) \<in> set (zip ''ABCDEFGHIJKLMNOPQRSTUVWXYZ'' ''abcdefghijklmnopqrstuvwxyz'')
      \<or> (y, x) \<in> set (zip ''ABCDEFGHIJKLMNOPQRSTUVWXYZ'' ''abcdefghijklmnopqrstuvwxyz'')) s t"
  shows "EqualFoldASCII s t"
  using assms unfolding EqualFoldASCII_def
proof (induction rule: list_all2_induct)
  case Nil
  then show ?case by simp
next
  case (Cons x xs y ys)
  from Cons.hyps(1) consider "x = y"
    | "(x, y) \<in> set (zip ''ABCDEFGHIJKLMNOPQRSTUVWXYZ'' ''abcdefghijklmnopqrstuvwxyz'')"
    | "(y, x) \<in> set (zip ''ABCDEFGHIJKLMNOPQRSTUVWXYZ'' ''abcdefghijklmnopqrstuvwxyz'')"
    by blast
  then have "toLowerASCII x = toLowerASCII y"
  proof cases
    case 1
    then show ?thesis by simp
  next
    case 2
    show ?thesis using letter_pair_fold(1)[OF 2] letter_pair_fold(2)[OF 2] by simp
  next
    case 3
    show ?thesis using letter_pair_fold(1)[OF 3] letter_pair_fold(2)[OF 3] by simp
  qed
  then show ?case using Cons.IH by simp
qed

text \<open>
  C2. \<open>getBackendAddr\<close> splits the user name at its first dot: with a dot, the text
  before it is the cluster identifier and the text after it the forwarded user name;
  without one, the whole name is the cluster identifier and the forwarded user name is
  empty. The identifier is looked up in the backend directory with \<open>strings.EqualFold\<close>:
  the first entry that folds equal wins and an identifier with no such entry resolves to
  itself. Wherever the library function agrees with ASCII case folding on ASCII strings,
  an ASCII identifier that differs from an entry's only in the case of its letters
  \<open>A\<close>..\<open>Z\<close> finds that entry. \<open>:4000\<close> is appended unless the resolved address ends in a
  colon followed by one or more of the digits \<open>0\<close>..\<open>9\<close>.
\<close>

theorem getBackendAddr_routes_by_user_name:
  "(\<forall>a b. UserName res = a @ CHR ''.'' # b \<and> CHR ''.'' \<notin> set a \<longrightarrow>
       snd (getBackendAddr eqFold conf res) = res\<lparr>UserName := b\<rparr> \<and>
       fst (getBackendAddr eqFold conf res) =
         Inr (let addr = Find eqFold (BackendConfigs conf) a
              in if \<exists>p ds. addr = p @ CHR '':'' # ds \<and> ds \<noteq> []
                          \<and> set ds \<subseteq> set ''0123456789''
                 then addr else addr @ '':4000''))
   \<and> (CHR ''.'' \<notin> set (UserName res) \<longrightarrow>
       snd (getBackendAddr eqFold conf res) = res\<lparr>UserName := []\<rparr> \<and>
       fst (getBackendAddr eqFold conf res) =
         Inr (let addr = Find eqFold (BackendConfigs conf) (UserName res)
              in if \<exists>p ds. addr = p @ CHR '':'' # ds \<and> ds \<noteq> []
                          \<and> set ds \<subseteq> set ''0123456789''
                 then addr else addr @ '':4000''))
   \<and> (\<forall>cid. (\<forall>c \<in> set (BackendConfigs conf). \<not> eqFold (ClusterID c) cid) \<longrightarrow>
         Find eqFold (BackendConfigs conf) cid = cid)
   \<and> (\<forall>cid pre c post. BackendConfigs conf = pre @ c # post \<and> eqFold (ClusterID c) cid \<and>
         (\<forall>c' \<in> set pre. \<not> eqFold (ClusterID c') cid) \<longrightarrow>
         Find eqFold (BackendConfigs conf) cid = Address c)
   \<and> ((\<forall>s t. isASCII s \<and> isASCII t \<longrightarrow> eqFold s t = EqualFoldASCII s t) \<longrightarrow>
       (\<forall>cid pre c post. BackendConfigs conf = pre @ c # post
          \<and> isASCII cid \<and> isASCII (ClusterID c)
          \<and> list_all2 (\<lambda>x y. x = y
               \<or> (x, y) \<in> set (zip ''ABCDEFGHIJKLMNOPQRSTUVWXYZ'' ''abcdefghijklmnopqrstuvwxyz'')
               \<or> (y, x) \<in> set (zip ''ABCDEFGHIJKLMNOPQRSTUVWXYZ'' ''abcdefghijklmnopqrstuvwxyz''))
              (ClusterID c) cid
          \<and> (\<forall>c' \<in> set pre. \<not> eqFold (ClusterID c') cid) \<longrightarrow>
          Find eqFold (BackendConfigs conf) cid = Address c))"
proof (intro conjI allI impI)
  fix a b assume h: "UserName res = a @ CHR ''.'' # b \<and> CHR ''.'' \<notin> set a"
  then have sp: "SplitN2 (UserName res) CHR ''.'' = [a, b]" by (simp add: SplitN2_first)
  show "snd (getBackendAddr eqFold conf res) = res\<lparr>UserName := b\<rparr>"
    by (simp add: getBackendAddr_def sp Let_def)
  show "fst (getBackendAddr eqFold conf res) =
         Inr (let addr = Find eqFold (BackendConfigs conf) a
              in if \<exists>p ds. addr = p @ CHR '':'' # ds \<and> ds \<noteq> []
                          \<and> set ds \<subseteq> set ''0123456789''
                 then addr else addr @ '':4000'')"
    unfolding matchPortSuffix_iff[symmetric]
    by (simp add: getBackendAddr_def sp Let_def)
next
  assume h: "CHR ''.'' \<notin> set (UserName res)"
  then have sp: "SplitN2 (UserName res) CHR ''.'' = [UserName res]" by (simp add: SplitN2_none)
  show "snd (getBackendAddr eqFold conf res) = res\<lparr>UserName := []\<rparr>"
    by (simp add: getBackendAddr_def sp Let_def)
  show "fst (getBackendAddr eqFold conf res) =
         Inr (let addr = Find eqFold (BackendConfigs conf) (UserName res)
              in if \<exists>p ds. addr = p @ CHR '':'' # ds \<and> ds \<noteq> []
                          \<and> set ds \<subseteq> set ''0123456789''
                 then addr else addr @ '':4000'')"
    unfolding matchPortSuffix_iff[symmetric]
    by (simp add: getBackendAddr_def sp Let_def)
next
  fix cid assume "\<forall>c \<in> set (BackendConfigs conf). \<not> eqFold (ClusterID c) cid"
  then show "Find eqFold (BackendConfigs conf) cid = cid" by (rule Find_absent)
next
  fix cid pre c post
  assume "BackendConfigs conf = pre @ c # post \<and> eqFold (ClusterID c) cid \<and>
         (\<forall>c' \<in> set pre. \<not> eqFold (ClusterID c') cid)"
  then show "Find eqFold (BackendConfigs conf) cid = Address c" by (simp add: Find_first)
next
  fix cid pre c post
  assume H: "\<forall>s t. isASCII s \<and> isASCII t \<longrightarrow> eqFold s t = EqualFoldASCII s t"
  assume a: "BackendConfigs conf = pre @ c # post
          \<and> isASCII cid \<and> isASCII (ClusterID c)
          \<and> list_all2 (\<lambda>x y. x = y
               \<or> (x, y) \<in> set (zip ''ABCDEFGHIJKLMNOPQRSTUVWXYZ'' ''abcdefghijklmnopqrstuvwxyz'')
               \<or> (y, x) \<in> set (zip ''ABCDEFGHIJKLMNOPQRSTUVWXYZ'' ''abcdefghijklmnopqrstuvwxyz''))
              (ClusterID c) cid
          \<and> (\<forall>c' \<in> set pre. \<not> eqFold (ClusterID c') cid)"
  have "EqualFoldASCII (ClusterID c) cid"
    by (rule same_up_to_case_fold) (use a in blast)
  then have "eqFold (ClusterID c) cid" using H a by blast
  then show "Find eqFold (BackendConfigs conf) cid = Address c"
    using a by (simp add: Find_first)
qed

lemma fold_examples:
  "toLowerASCII CHR ''C'' = CHR ''c''" "toLowerASCII CHR ''c'' = CHR ''c''"
  "toLowerASCII CHR ''1'' = CHR ''1''" "toLowerASCII CHR ''2'' = CHR ''2''"
  "toLowerASCII CHR ''a'' = CHR ''a''" "toLowerASCII CHR ''l'' = CHR ''l''"
  "toLowerASCII CHR ''i'' = CHR ''i''" "toLowerASCII CHR ''e'' = CHR ''e''"
  by code_simp+

text \<open>
  C2 at the specification's inputs, with ASCII folding for \<open>strings.EqualFold\<close>: user
  names \<open>c1.alice\<close>, \<open>c2.alice\<close> and \<open>alice\<close> against a directory that binds \<open>C1\<close> to
  \<open>10.0.0.1\<close> or to \<open>10.0.0.1:5000\<close>.
\<close>

theorem getBackendAddr_routes_by_user_name_witness:
  "getBackendAddr EqualFoldASCII (exampleConfig ''10.0.0.1'') (exampleResponse ''c1.alice'')
     = (Inr ''10.0.0.1:4000'', exampleResponse ''alice'')
   \<and> getBackendAddr EqualFoldASCII (exampleConfig ''10.0.0.1:5000'') (exampleResponse ''c1.alice'')
     = (Inr ''10.0.0.1:5000'', exampleResponse ''alice'')
   \<and> getBackendAddr EqualFoldASCII (exampleConfig ''10.0.0.1'') (exampleResponse ''c2.alice'')
     = (Inr ''c2:4000'', exampleResponse ''alice'')
   \<and> getBackendAddr EqualFoldASCII (exampleConfig ''10.0.0.1'') (exampleResponse ''alice'')
     = (Inr ''alice:4000'', exampleResponse [])"
proof -
  have asc: "isASCII ''c1''" "isASCII ''C1''" by (simp_all add: isASCII_def)
  have same: "list_all2 (\<lambda>x y. x = y
               \<or> (x, y) \<in> set (zip ''ABCDEFGHIJKLMNOPQRSTUVWXYZ'' ''abcdefghijklmnopqrstuvwxyz'')
               \<or> (y, x) \<in> set (zip ''ABCDEFGHIJKLMNOPQRSTUVWXYZ'' ''abcdefghijklmnopqrstuvwxyz''))
              ''C1'' ''c1''"
    by simp
  have f1: "Find EqualFoldASCII (BackendConfigs (exampleConfig addr)) ''c1'' = addr" for addr
    using getBackendAddr_routes_by_user_name
      [where eqFold = EqualFoldASCII and conf = "exampleConfig addr",
        THEN conjunct2, THEN conjunct2, THEN conjunct2, THEN conjunct2, rule_format,
        of "[]" "\<lparr>ClusterID = ''C1'', Address = addr\<rparr>" "[]" "''c1''"]
      asc same
    by (simp add: exampleConfig_def)
  have f2: "Find EqualFoldASCII (BackendConfigs (exampleConfig ''10.0.0.1'')) cid = cid"
    if "\<not> EqualFoldASCII ''C1'' cid" for cid
    using getBackendAddr_routes_by_user_name
      [where eqFold = EqualFoldASCII and conf = "exampleConfig ''10.0.0.1''",
        THEN conjunct2, THEN conjunct2, THEN conjunct1, rule_format, of cid] that
    by (simp add: exampleConfig_def)
  have n: "\<not> EqualFoldASCII ''C1'' ''c2''" "\<not> EqualFoldASCII ''C1'' ''alice''"
    by (simp_all add: EqualFoldASCII_def fold_examples)
  have p: "\<not> matchPortSuffix ''10.0.0.1''" "matchPortSuffix ''10.0.0.1:5000''"
    "\<not> matchPortSuffix ''c2''" "\<not> matchPortSuffix ''alice''"
    by (simp_all add: matchPortSuffix_def isDigit_def)
  have 1: "getBackendAddr EqualFoldASCII (exampleConfig ''10.0.0.1'') (exampleResponse ''c1.alice'')
     = (Inr ''10.0.0.1:4000'', exampleResponse ''alice'')"
    using getBackendAddr_routes_by_user_name
      [where eqFold = EqualFoldASCII and conf = "exampleConfig ''10.0.0.1''"
        and res = "exampleResponse ''c1.alice''",
        THEN conjunct1, rule_format, of "''c1''" "''alice''",
        unfolded matchPortSuffix_iff[symmetric]]
    by (simp add: prod_eq_iff exampleResponse_def f1 p)
  have 2: "getBackendAddr EqualFoldASCII (exampleConfig ''10.0.0.1:5000'') (exampleResponse ''c1.alice'')
     = (Inr ''10.0.0.1:5000'', exampleResponse ''alice'')"
    using getBackendAddr_routes_by_user_name
      [where eqFold = EqualFoldASCII and conf = "exampleConfig ''10.0.0.1:5000''"
        and res = "exampleResponse ''c1.alice''",
        THEN conjunct1, rule_format, of "''c1''" "''alice''",
        unfolded matchPortSuffix_iff[symmetric]]
    by (simp add: prod_eq_iff exampleResponse_def f1 p)
  have 3: "getBackendAddr EqualFoldASCII (exampleConfig ''10.0.0.1'') (exampleResponse ''c2.alice'')
     = (Inr ''c2:4000'', exampleResponse ''alice'')"
    using getBackendAddr_routes_by_user_name
      [where eqFold = EqualFoldASCII and conf = "exampleConfig ''10.0.0.1''"
        and res = "exampleResponse ''c2.alice''",
        THEN conjunct1, rule_format, of "''c2''" "''alice''",
        unfolded matchPortSuffix_iff[symmetric]]
    by (simp add: prod_eq_iff exampleResponse_def f2 n p)
  have 4: "getBackendAddr EqualFoldASCII (exampleConfig ''10.0.0.1'') (exampleResponse ''alice'')
     = (Inr ''alice:4000'', exampleResponse [])"
    using getBackendAddr_routes_by_user_name
      [where eqFold = EqualFoldASCII and conf = "exampleConfig ''10.0.0.1''"
        and res = "exampleResponse ''alice''",
        THEN conjunct2, THEN conjunct1, unfolded matchPortSuffix_iff[symmetric]]
    by (simp add: prod_eq_iff exampleResponse_def f2 n p)
  show ?thesis using 1 2 3 4 by blast
qed

lemma disjoint_bits: "(a :: 32 word) AND b = 0 \<Longrightarrow> bit a i \<Longrightarrow> bit b i \<Longrightarrow> False"
  by (metis bit_and_iff bit_0_eq bot_apply bot_bool_def)

text \<open>
  C3. The response that \<open>handleConn\<close> forwards to the backend differs from the decoded one
  as follows, for capability masks that do not overlap: the Compress bit is clear, the
  PluginAuth bit is set, the SecureConnection bit is clear when the backend transport is
  configured as insecure and unchanged otherwise, every other capability bit is
  unchanged, the plugin name is \<open>AuthInvalidMethod\<close>, the user name is the one
  \<open>getBackendAddr\<close> stripped, and the remaining fields are unchanged.
\<close>
theorem handleConn_forwarded_mutations:
  assumes "ClientCompress k AND ClientPluginAuth k = 0"
    and "ClientSecureConnection k AND ClientPluginAuth k = 0"
    and "ClientCompress k AND ClientSecureConnection k = 0"
  shows "Capability (handleConn_forwarded k eqFold conf res) AND ClientCompress k = 0
    \<and> Capability (handleConn_forwarded k eqFold conf res) AND ClientPluginAuth k = ClientPluginAuth k
    \<and> (BackendInsecureTransport conf \<longrightarrow>
          Capability (handleConn_forwarded k eqFold conf res) AND ClientSecureConnection k = 0)
    \<and> (\<not> BackendInsecureTransport conf \<longrightarrow>
          Capability (handleConn_forwarded k eqFold conf res) AND ClientSecureConnection k
            = Capability res AND ClientSecureConnection k)
    \<and> (\<forall>i. \<not> bit (ClientCompress k) i \<and> \<not> bit (ClientSecureConnection k) i
              \<and> \<not> bit (ClientPluginAuth k) i \<longrightarrow>
          bit (Capability (handleConn_forwarded k eqFold conf res)) i = bit (Capability res) i)
    \<and> AuthPlugin (handleConn_forwarded k eqFold conf res) = AuthInvalidMethod k
    \<and> UserName (handleConn_forwarded k eqFold conf res) = UserName (snd (getBackendAddr eqFold conf res))
    \<and> MaxPacketSize (handleConn_forwarded k eqFold conf res) = MaxPacketSize res
    \<and> CharacterSet (handleConn_forwarded k eqFold conf res) = CharacterSet res
    \<and> DBName (handleConn_forwarded k eqFold conf res) = DBName res
    \<and> Auth (handleConn_forwarded k eqFold conf res) = Auth res
    \<and> Attrs (handleConn_forwarded k eqFold conf res) = Attrs res"
proof -
  note d = disjoint_bits[OF assms(1)] disjoint_bits[OF assms(2)] disjoint_bits[OF assms(3)]
  have cap: "Capability (handleConn_forwarded k eqFold conf res) =
      (if BackendInsecureTransport conf
       then (Capability res AND NOT (ClientCompress k)) AND NOT (ClientSecureConnection k)
       else Capability res AND NOT (ClientCompress k)) OR ClientPluginAuth k"
    by (simp add: handleConn_forwarded_def handleConn_rewrite_def getBackendAddr_def Let_def)
  have 1: "Capability (handleConn_forwarded k eqFold conf res) AND ClientCompress k = 0"
    unfolding cap by (rule bit_word_eqI) (use d in \<open>auto simp: bit_simps\<close>)
  have 2: "Capability (handleConn_forwarded k eqFold conf res) AND ClientPluginAuth k = ClientPluginAuth k"
    unfolding cap by (rule bit_word_eqI) (auto simp: bit_simps)
  have 3: "BackendInsecureTransport conf \<Longrightarrow>
          Capability (handleConn_forwarded k eqFold conf res) AND ClientSecureConnection k = 0"
    unfolding cap by (rule bit_word_eqI) (use d in \<open>auto simp: bit_simps\<close>)
  have 4: "\<not> BackendInsecureTransport conf \<Longrightarrow>
          Capability (handleConn_forwarded k eqFold conf res) AND ClientSecureConnection k
            = Capability res AND ClientSecureConnection k"
    unfolding cap by (rule bit_word_eqI) (use d in \<open>auto simp: bit_simps\<close>)
  have 5: "\<And>i. \<not> bit (ClientCompress k) i \<and> \<not> bit (ClientSecureConnection k) i
              \<and> \<not> bit (ClientPluginAuth k) i \<Longrightarrow>
          bit (Capability (handleConn_forwarded k eqFold conf res)) i = bit (Capability res) i"
    unfolding cap by (auto simp: bit_simps dest: bit_imp_le_length)
  have 6: "AuthPlugin (handleConn_forwarded k eqFold conf res) = AuthInvalidMethod k
    \<and> UserName (handleConn_forwarded k eqFold conf res) = UserName (snd (getBackendAddr eqFold conf res))
    \<and> MaxPacketSize (handleConn_forwarded k eqFold conf res) = MaxPacketSize res
    \<and> CharacterSet (handleConn_forwarded k eqFold conf res) = CharacterSet res
    \<and> DBName (handleConn_forwarded k eqFold conf res) = DBName res
    \<and> Auth (handleConn_forwarded k eqFold conf res) = Auth res
    \<and> Attrs (handleConn_forwarded k eqFold conf res) = Attrs res"
    by (simp add: handleConn_forwarded_def handleConn_rewrite_def getBackendAddr_def Let_def)
  show ?thesis using 1 2 3 4 5 6 by blast
qed

lemma bit_above: "(n::64 word) < 2^k \<Longrightarrow> bit n i \<Longrightarrow> i < k"
  by (metis bit_take_bit_iff less_mask_eq take_bit_eq_mask)

lemma ReadBytes_exact: "length xs = nat k \<Longrightarrow> 0 \<le> k \<Longrightarrow> ReadBytes (xs @ rest) k = (Inr xs, rest)"
  by (simp add: ReadBytes_def)

lemma ucast_byte_back: 
  assumes "(x::64 word) < 2^8" shows "ucast (ucast x :: byte) = x"
  by (rule bit_word_eqI) (auto simp: bit_simps dest: bit_above[OF assms])

lemma ucast_u16_back: 
  assumes "(x::64 word) < 2^16" shows "ucast (ucast x :: 16 word) = x"
  by (rule bit_word_eqI) (auto simp: bit_simps dest: bit_above[OF assms])

lemma ucast_byte_less:
  assumes "(x::64 word) < 251" shows "(ucast x :: byte) < 0xFC"
proof -
  have "unat x < 251" using assms by (simp add: word_less_nat_alt)
  then have "unat (ucast x :: byte) < 252"
    by (simp add: unsigned_ucast_eq take_bit_nat_eq_self)
  then show ?thesis by (simp add: word_less_nat_alt)
qed

lemma mask16: "(0xFFFF :: 32 word) = mask 16"
  by (simp add: mask_eq_exp_minus_1)

lemma u24_back:
  assumes "(x::64 word) < 2^24"
  shows "(ucast ((ucast (ucast ((ucast x :: 32 word) AND 0xFFFF) :: 16 word) :: 32 word)
            OR push_bit 16 (ucast (ucast (drop_bit 16 (ucast x :: 32 word)) :: byte))) :: 64 word) = x"
  unfolding mask16
  apply (rule bit_word_eqI)
  apply (simp add: bit_simps less_diff_conv2 cong: conj_cong)
  apply (case_tac "bit x n"; simp)
  apply (drule bit_above[OF assms])
  apply linarith
  done

lemma ReadUint16_PutUint16: "ReadUint16 (PutUint16 v @ rest) = (Inr v, rest)"
proof -
  have "ReadBytes (PutUint16 v @ rest) 2 = (Inr (PutUint16 v), rest)"
    by (rule ReadBytes_exact) (simp_all add: PutUint16_def)
  then show ?thesis by (simp add: ReadUint16_def Uint16_PutUint16)
qed

lemma ReadUint64_PutUint64: "ReadUint64 (PutUint64 v @ rest) = (Inr v, rest)"
proof -
  have "ReadBytes (PutUint64 v @ rest) 8 = (Inr (PutUint64 v), rest)"
    by (rule ReadBytes_exact) (simp_all add: PutUint64_def)
  then show ?thesis by (simp add: ReadUint64_def Uint64_PutUint64)
qed

lemma lenenc_case1:
  assumes "x < 251"
  shows "ReadLenencInt (WriteLenencInt [] x @ rest) = (Inr x, rest)"
proof -
  have "x < 2 ^ 8" using assms by (simp add: word_less_nat_alt)
  then have "ucast (ucast x :: byte) = x" by (rule ucast_byte_back)
  then show ?thesis
    using assms ucast_byte_less[OF assms]
    by (simp add: WriteLenencInt_def WriteByte_def ReadLenencInt_def ReadByte_def)
qed

lemma lenenc_case2:
  assumes "251 \<le> x" "x < 65536"
  shows "ReadLenencInt (WriteLenencInt [] x @ rest) = (Inr x, rest)"
proof -
  have n: "(x < 251) = False" using assms(1) by (simp add: not_less)
  have "x < 2 ^ 16" using assms(2) by simp
  then have "ucast (ucast x :: 16 word) = x" by (rule ucast_u16_back)
  then show ?thesis
    by (simp add: WriteLenencInt_def WriteByte_def WriteUint16_def WriteBytes_def n assms
      ReadLenencInt_def ReadByte_def ReadUint16_PutUint16)
qed

lemma lenenc_case3:
  assumes "65536 \<le> x" "x < 16777216"
  shows "ReadLenencInt (WriteLenencInt [] x @ rest) = (Inr x, rest)"
proof -
  have n: "(x < 251) = False" "(x < 65536) = False"
    using assms(1) by (simp_all add: word_less_nat_alt word_le_nat_alt)
  have "x < 2 ^ 24" using assms(2) by simp
  note u24_back[OF this]
  then show ?thesis
    by (simp add: WriteLenencInt_def WriteByte_def WriteUint16_def WriteUint24_def WriteBytes_def
      n assms ReadLenencInt_def ReadByte_def ReadUint24_def ReadUint16_PutUint16)
qed

lemma lenenc_case4:
  assumes "16777216 \<le> x"
  shows "ReadLenencInt (WriteLenencInt [] x @ rest) = (Inr x, rest)"
proof -
  have n: "(x < 251) = False" "(x < 65536) = False" "(x < 16777216) = False"
    using assms by (simp_all add: word_less_nat_alt word_le_nat_alt)
  show ?thesis
    by (simp add: WriteLenencInt_def WriteByte_def WriteUint64_def WriteBytes_def
      n ReadLenencInt_def ReadByte_def ReadUint64_PutUint64)
qed

lemma lenenc_roundtrip: "ReadLenencInt (WriteLenencInt [] x @ rest) = (Inr x, rest)"
  using lenenc_case1[of x rest] lenenc_case2[of x rest] lenenc_case3[of x rest] lenenc_case4[of x rest]
  by (meson not_less)

lemma u24_bytes:
  "PutUint16 (ucast ((ucast (x::64 word) :: 32 word) AND 0xFFFF)) @ [ucast (drop_bit 16 (ucast x :: 32 word))]
     = [ucast x, ucast (drop_bit 8 x), ucast (drop_bit 16 x)]"
  unfolding mask16 PutUint16_def
  apply simp
  apply (intro conjI; rule bit_word_eqI)
    apply (auto simp: bit_simps)
  done

lemma lenenc_layout:
  "WriteLenencInt b x = b @
      (if x < 0xFB then [ucast x]
       else if x < 0x10000 then 0xFC # PutUint16 (ucast x)
       else if x < 0x1000000 then [0xFD, ucast x, ucast (drop_bit 8 x), ucast (drop_bit 16 x)]
       else 0xFE # PutUint64 x)"
  using u24_bytes[of x]
  by (auto simp add: WriteLenencInt_def WriteByte_def WriteUint16_def WriteUint24_def WriteUint64_def
      WriteBytes_def not_le not_less)

lemma lenenc_widths:
  "length (WriteLenencInt [] 250) = 1" "length (WriteLenencInt [] 251) = 3"
  "length (WriteLenencInt [] 0xFFFF) = 3" "length (WriteLenencInt [] 0x10000) = 4"
  "length (WriteLenencInt [] 0xFFFFFF) = 4" "length (WriteLenencInt [] 0x1000000) = 9"
  by (simp_all add: lenenc_layout PutUint16_def PutUint64_def)

text \<open>
  C3 at the flag values of the MySQL protocol and a response with Compress,
  SecureConnection and ProtocolFortyOne set.
\<close>
theorem handleConn_forwarded_mutations_witness:
  "(0x20 :: 32 word) AND 0x80000 = 0 \<and> (0x8000 :: 32 word) AND 0x80000 = 0
   \<and> (0x20 :: 32 word) AND 0x8000 = 0
   \<and> Capability (handleConn_forwarded exampleConsts EqualFoldASCII (exampleConfig ''10.0.0.1'')
         ((exampleResponse ''c1.alice'')\<lparr>Capability := 0x8220\<rparr>)) AND 0x20 = 0
   \<and> Capability (handleConn_forwarded exampleConsts EqualFoldASCII (exampleConfig ''10.0.0.1'')
         ((exampleResponse ''c1.alice'')\<lparr>Capability := 0x8220\<rparr>)) AND 0x80000 = 0x80000
   \<and> Capability (handleConn_forwarded exampleConsts EqualFoldASCII (exampleConfig ''10.0.0.1'')
         ((exampleResponse ''c1.alice'')\<lparr>Capability := 0x8220\<rparr>)) AND 0x8000 = 0x8000
   \<and> AuthPlugin (handleConn_forwarded exampleConsts EqualFoldASCII (exampleConfig ''10.0.0.1'')
         ((exampleResponse ''c1.alice'')\<lparr>Capability := 0x8220\<rparr>)) = ''invalid''"
  using handleConn_forwarded_mutations [of exampleConsts EqualFoldASCII
      "exampleConfig ''10.0.0.1''" "(exampleResponse ''c1.alice'')\<lparr>Capability := 0x8220\<rparr>"]
  by (simp add: exampleConsts_def exampleConfig_def exampleResponse_def)

text \<open>
  C10. \<open>SetResetOption(opt)\<close> assigns: afterwards the pending reset state is \<open>opt\<close>, whatever
  it was before (a mark pending for the other direction is dropped, not merged), an
  installed compressor gets the same \<open>opt\<close>, and nothing else changes.
\<close>
theorem SetResetOption_assigns:
  "seqreset (SetResetOption c opt) = opt
   \<and> compressor (SetResetOption c opt)
       = map_option (\<lambda>z. z\<lparr>seqreset_z := opt\<rparr>) (compressor c)
   \<and> SetResetOption c opt
       = c\<lparr>seqreset := opt,
            compressor := map_option (\<lambda>z. z\<lparr>seqreset_z := opt\<rparr>) (compressor c)\<rparr>
   \<and> SetResetOption (SetResetOption c opt') opt = SetResetOption c opt
   \<and> SetResetOption (c\<lparr>seqreset := SeqResetOnRead\<rparr>) SeqResetOnWrite
       = SetResetOption (c\<lparr>seqreset := SeqResetNone\<rparr>) SeqResetOnWrite
   \<and> seqreset (SetResetOption (c\<lparr>seqreset := SeqResetOnRead\<rparr>) SeqResetOnWrite)
         AND SeqResetOnRead = 0"
  by (cases "compressor c")
     (simp_all add: SetResetOption_def Compressor_SetResetOption_def Let_def
        SeqResetOnRead_def SeqResetOnWrite_def)

lemma WritePacket_empty_example:
  "WritePacket (\<lambda>bs. bs) (NewConn exampleNetConn) []
     = ((NewConn exampleNetConn)
          \<lparr>w := BufioWriter \<lparr>written = [0, 0, 0, 0], room = None, failed = False\<rparr>,
           sequence := 1\<rparr>, None)"
  by (simp add: WritePacket_def WritePacket_loop.simps [of _ _ "[]"] NewConn_def
      exampleNetConn_def NewWriterSize_def NewReaderSize_def w_Write_def bufio_Write_def
      writeLen3_def MaxPayloadLen_def SeqResetOnWrite_def)

text \<open>
  C4 as stated fails: a connection that has written one packet has sequence counter 1,
  and the counter is still 1 after \<open>SetRawConn\<close>.
\<close>
theorem SetRawConn_keeps_sequence_counterexample:
  "sequence (SetRawConn (fst (WritePacket (\<lambda>bs. bs) (NewConn exampleNetConn) [])) exampleNetConn)
     = 1"
  by (simp add: WritePacket_empty_example SetRawConn_def)

text \<open>
  C4, amended. \<open>SetRawConn\<close> replaces the transport and re-creates the buffered reader and
  writer on it; the sequence counter, the pending reset flags, the compressor field, the
  read timeout and the maximum-allowed-payload bound keep their values.
\<close>
theorem SetRawConn_replaces_transport_only:
  "SetRawConn c nc =
     c\<lparr>conn := nc, r := BufioReader \<lparr>pending = incoming nc\<rparr>,
        w := BufioWriter \<lparr>written = [], room = accepts nc, failed = False\<rparr>\<rparr>
   \<and> sequence (SetRawConn c nc) = sequence c
   \<and> seqreset (SetRawConn c nc) = seqreset c
   \<and> compressor (SetRawConn c nc) = compressor c
   \<and> readTimeout (SetRawConn c nc) = readTimeout c
   \<and> maxAllowedPacket (SetRawConn c nc) = maxAllowedPacket c"
  by (simp add: SetRawConn_def NewReaderSize_def NewWriterSize_def)

text \<open>
  C7. Decoding the length-encoded integer written for any 64-bit \<open>x\<close> gives \<open>x\<close> back and
  consumes exactly the bytes written; 250 takes 1 byte, 251 and 0xFFFF take 3, 0x10000
  and 0xFFFFFF take 4, 0x1000000 takes 9; values below 0xFB are one byte, then come the
  prefixes 0xFC with a u16, 0xFD with a u24 and 0xFE with a u64, little endian.
\<close>
theorem lenenc_int_roundtrip:
  "ReadLenencInt (WriteLenencInt [] x @ rest) = (Inr x, rest)
   \<and> length (WriteLenencInt [] 250) = 1
   \<and> length (WriteLenencInt [] 251) = 3
   \<and> length (WriteLenencInt [] 0xFFFF) = 3
   \<and> length (WriteLenencInt [] 0x10000) = 4
   \<and> length (WriteLenencInt [] 0xFFFFFF) = 4
   \<and> length (WriteLenencInt [] 0x1000000) = 9
   \<and> WriteLenencInt b x = b @
        (if x < 0xFB then [ucast x]
         else if x < 0x10000 then 0xFC # PutUint16 (ucast x)
         else if x < 0x1000000 then [0xFD, ucast x, ucast (drop_bit 8 x), ucast (drop_bit 16 x)]
         else 0xFE # PutUint64 x)"
  using lenenc_roundtrip [of x rest] lenenc_widths lenenc_layout [of b x] by simp

section \<open>Properties of the framed connection and the compression layer\<close>

lemma WritePacket_loop_short:
  assumes "w c = BufioWriter bw" "\<not> failed bw" "room bw = None" "length p < MaxPayloadLen"
  shows "WritePacket_loop deflate c p =
    (c\<lparr>w := BufioWriter (bw\<lparr>written := written bw @ writeLen3 (int (length p)) @ [sequence c] @ p\<rparr>),
       sequence := sequence c + 1\<rparr>, None)"
  using assms
  by (subst WritePacket_loop.simps)
     (simp add: w_Write_def bufio_Write_def Let_def writeLen3_def)

lemma WritePacket_short:
  assumes "w c = BufioWriter bw" "\<not> failed bw" "room bw = None" "length p < MaxPayloadLen"
    "seqreset c AND SeqResetOnWrite = 0"
  shows "WritePacket deflate c p =
    (c\<lparr>w := BufioWriter (bw\<lparr>written := written bw @ writeLen3 (int (length p)) @ [sequence c] @ p\<rparr>),
       sequence := sequence c + 1\<rparr>, None)"
  using assms by (simp add: WritePacket_def WritePacket_loop_short)

lemma WritePacket_short_reset:
  assumes "w c = BufioWriter bw" "\<not> failed bw" "room bw = None" "length p < MaxPayloadLen"
    "seqreset c AND SeqResetOnWrite \<noteq> 0"
  shows "WritePacket deflate c p =
    (c\<lparr>w := BufioWriter (bw\<lparr>written := written bw @ writeLen3 (int (length p)) @ [0] @ p\<rparr>),
       seqreset := seqreset c AND NOT SeqResetOnWrite, sequence := 1\<rparr>, None)"
  using assms by (simp add: WritePacket_def WritePacket_loop_short)

lemma goSendPayloads_short:
  assumes "w c = BufioWriter bw" "\<not> failed bw" "room bw = None"
    "\<forall>p \<in> set ps. length p < MaxPayloadLen"
    "seqreset c AND SeqResetOnWrite = 0" "sequence c = of_nat k"
  shows "goSendPayloads deflate c ps =
    (c\<lparr>w := BufioWriter (bw\<lparr>written := written bw @
            concat (map (\<lambda>(i, p). writeLen3 (int (length p)) @ [of_nat i] @ p) (enumerate k ps))\<rparr>),
       sequence := of_nat (k + length ps)\<rparr>, None)"
  using assms
proof (induction ps arbitrary: c bw k)
  case Nil
  then show ?case by simp
next
  case (Cons p ps)
  let ?bw = "bw\<lparr>written := written bw @ writeLen3 (int (length p)) @ [sequence c] @ p\<rparr>"
  let ?c = "c\<lparr>w := BufioWriter ?bw, sequence := sequence c + 1\<rparr>"
  have 1: "WritePacket deflate c p = (?c, None)"
    using Cons.prems by (intro WritePacket_short) auto
  have 2: "goSendPayloads deflate ?c ps =
    (?c\<lparr>w := BufioWriter (?bw\<lparr>written := written ?bw @
            concat (map (\<lambda>(i, p). writeLen3 (int (length p)) @ [of_nat i] @ p) (enumerate (Suc k) ps))\<rparr>),
       sequence := of_nat (Suc k + length ps)\<rparr>, None)"
    using Cons.prems by (intro Cons.IH) auto
  show ?case using 1 2 Cons.prems(6) by simp
qed

lemma WritePacket_loop_exact:
  assumes "w c = BufioWriter bw" "\<not> failed bw" "room bw = None" "length p = MaxPayloadLen"
  shows "WritePacket_loop deflate c p =
    (c\<lparr>w := BufioWriter (bw\<lparr>written := written bw @ [0xFF, 0xFF, 0xFF, sequence c] @ p\<rparr>),
       sequence := sequence c + 1\<rparr>, None)"
  using assms
  by (subst WritePacket_loop.simps)
     (simp add: w_Write_def bufio_Write_def Let_def writeLen3_def MaxPayloadLen_def)

text \<open>
  C1 at its failing input. \<open>WritePacket\<close> on a fresh connection with a payload of exactly
  \<open>2^24 - 1\<close> bytes emits one wire packet, header \<open>ff ff ff 00\<close> and the payload, and
  returns with the sequence counter at 1: no zero-length packet follows.
\<close>
theorem WritePacket_exact_multiple_no_terminator:
  "WritePacket (\<lambda>bs. bs) (NewConn exampleNetConn) (replicate 16777215 0) =
     ((NewConn exampleNetConn)
        \<lparr>w := BufioWriter \<lparr>written = [0xFF, 0xFF, 0xFF, 0] @ replicate 16777215 0,
                            room = None, failed = False\<rparr>,
         sequence := 1\<rparr>, None)"
proof -
  have "WritePacket_loop (\<lambda>bs. bs) (NewConn exampleNetConn) (replicate 16777215 0) =
     ((NewConn exampleNetConn)
        \<lparr>w := BufioWriter ((NewWriterSize exampleNetConn)
               \<lparr>written := written (NewWriterSize exampleNetConn)
                    @ [0xFF, 0xFF, 0xFF, sequence (NewConn exampleNetConn)] @ replicate 16777215 0\<rparr>),
         sequence := sequence (NewConn exampleNetConn) + 1\<rparr>, None)"
    by (rule WritePacket_loop_exact)
       (simp_all add: NewConn_def NewWriterSize_def exampleNetConn_def MaxPayloadLen_def)
  then show ?thesis
    by (simp add: WritePacket_def NewConn_def NewWriterSize_def exampleNetConn_def
        SeqResetOnWrite_def)
qed

text \<open>
  C6. On a fresh connection over a transport that accepts every byte, successive
  \<open>WritePacket\<close> calls with payloads shorter than \<open>2^24 - 1\<close> bytes succeed and emit, in
  order, one wire packet per payload whose sequence byte is the payload's index, which as
  a byte is the index modulo 256. After \<open>SetResetOption\<close> with the on-write flag the next
  \<open>WritePacket\<close> emits sequence byte 0, whatever the counter was, and leaves it at 1.
\<close>
theorem sequence_continuity:
  "(accepts nc = None \<and> (\<forall>p \<in> set ps. length p < MaxPayloadLen) \<longrightarrow>
      goSendPayloads deflate (NewConn nc) ps =
        ((NewConn nc)
           \<lparr>w := BufioWriter
                  \<lparr>written = concat (map (\<lambda>(i, p). writeLen3 (int (length p)) @ [of_nat i] @ p)
                                       (enumerate 0 ps)),
                   room = None, failed = False\<rparr>,
            sequence := of_nat (length ps)\<rparr>, None))
   \<and> (\<forall>i. unat (of_nat i :: byte) = i mod 256)
   \<and> (w c = BufioWriter bw \<and> \<not> failed bw \<and> room bw = None \<and> length p < MaxPayloadLen
        \<and> opt AND SeqResetOnWrite \<noteq> 0 \<longrightarrow>
      WritePacket deflate (SetResetOption c opt) p =
        ((SetResetOption c opt)
           \<lparr>w := BufioWriter (bw\<lparr>written := written bw @ writeLen3 (int (length p)) @ [0] @ p\<rparr>),
            seqreset := opt AND NOT SeqResetOnWrite, sequence := 1\<rparr>, None))
   \<and> WritePacket deflate (SetResetOption c SeqResetOnWrite) p
       = WritePacket deflate (SetResetOption (c\<lparr>sequence := 0\<rparr>) SeqResetOnWrite) p"
proof (intro conjI impI allI)
  assume a: "accepts nc = None \<and> (\<forall>p \<in> set ps. length p < MaxPayloadLen)"
  have "goSendPayloads deflate (NewConn nc) ps =
    ((NewConn nc)\<lparr>w := BufioWriter ((NewWriterSize nc)\<lparr>written := written (NewWriterSize nc) @
            concat (map (\<lambda>(i, p). writeLen3 (int (length p)) @ [of_nat i] @ p) (enumerate 0 ps))\<rparr>),
       sequence := of_nat (0 + length ps)\<rparr>, None)"
    using a by (intro goSendPayloads_short) (simp_all add: NewConn_def NewWriterSize_def)
  then show "goSendPayloads deflate (NewConn nc) ps =
        ((NewConn nc)
           \<lparr>w := BufioWriter
                  \<lparr>written = concat (map (\<lambda>(i, p). writeLen3 (int (length p)) @ [of_nat i] @ p)
                                       (enumerate 0 ps)),
                   room = None, failed = False\<rparr>,
            sequence := of_nat (length ps)\<rparr>, None)"
    using a by (simp add: NewWriterSize_def)
next
  fix i :: nat show "unat (of_nat i :: byte) = i mod 256"
    by (simp add: unat_of_nat)
next
  assume a: "w c = BufioWriter bw \<and> \<not> failed bw \<and> room bw = None \<and> length p < MaxPayloadLen
        \<and> opt AND SeqResetOnWrite \<noteq> 0"
  have s: "seqreset (SetResetOption c opt) = opt" "w (SetResetOption c opt) = BufioWriter bw"
    by (cases "compressor c"; simp add: SetResetOption_def Let_def a)+
  show "WritePacket deflate (SetResetOption c opt) p =
        ((SetResetOption c opt)
           \<lparr>w := BufioWriter (bw\<lparr>written := written bw @ writeLen3 (int (length p)) @ [0] @ p\<rparr>),
            seqreset := opt AND NOT SeqResetOnWrite, sequence := 1\<rparr>, None)"
    using WritePacket_short_reset[of "SetResetOption c opt" bw p deflate] a s by simp
next
  show "WritePacket deflate (SetResetOption c SeqResetOnWrite) p
       = WritePacket deflate (SetResetOption (c\<lparr>sequence := 0\<rparr>) SeqResetOnWrite) p"
    by (cases "compressor c")
       (simp_all add: WritePacket_def SetResetOption_def Let_def SeqResetOnWrite_def)
qed

text \<open>
  C6 at three payloads (the last one empty) and at a connection whose counter was 5
  before the reset.
\<close>
theorem sequence_continuity_witness:
  "goSendPayloads (\<lambda>bs. bs) (NewConn exampleNetConn) [[7], [8, 9], []] =
     ((NewConn exampleNetConn)
        \<lparr>w := BufioWriter \<lparr>written = [1, 0, 0, 0, 7, 2, 0, 0, 1, 8, 9, 0, 0, 0, 2],
                            room = None, failed = False\<rparr>,
         sequence := 3\<rparr>, None)
   \<and> WritePacket (\<lambda>bs. bs)
        (SetResetOption ((NewConn exampleNetConn)\<lparr>sequence := 5\<rparr>) SeqResetOnWrite) [7] =
     ((NewConn exampleNetConn)
        \<lparr>w := BufioWriter \<lparr>written = [1, 0, 0, 0, 7], room = None, failed = False\<rparr>,
         sequence := 1\<rparr>, None)"
proof -
  note T = sequence_continuity [where nc = exampleNetConn and ps = "[[7], [8, 9], []]"
      and c = "(NewConn exampleNetConn)\<lparr>sequence := 5\<rparr>"
      and bw = "NewWriterSize exampleNetConn" and p = "[7]"
      and opt = SeqResetOnWrite and deflate = "\<lambda>bs. bs"]
  have a: "goSendPayloads (\<lambda>bs. bs) (NewConn exampleNetConn) [[7], [8, 9], []] =
     ((NewConn exampleNetConn)
        \<lparr>w := BufioWriter \<lparr>written = [1, 0, 0, 0, 7, 2, 0, 0, 1, 8, 9, 0, 0, 0, 2],
                            room = None, failed = False\<rparr>,
         sequence := 3\<rparr>, None)"
    using T [THEN conjunct1]
    by (simp add: exampleNetConn_def MaxPayloadLen_def writeLen3_def enumerate_eq_zip upt_rec)
  have b: "WritePacket (\<lambda>bs. bs)
        (SetResetOption ((NewConn exampleNetConn)\<lparr>sequence := 5\<rparr>) SeqResetOnWrite) [7] =
     ((NewConn exampleNetConn)
        \<lparr>w := BufioWriter \<lparr>written = [1, 0, 0, 0, 7], room = None, failed = False\<rparr>,
         sequence := 1\<rparr>, None)"
    using T [THEN conjunct2, THEN conjunct2, THEN conjunct1]
    by (simp add: exampleNetConn_def MaxPayloadLen_def writeLen3_def NewConn_def
        NewWriterSize_def SetResetOption_def SeqResetOnWrite_def)
  show ?thesis using a b by simp
qed


end
